theory Spec2Isabelle
  imports
    Main
    "HOL-Library.AList"
    "HOL-Library.Sublist"
    "HOL-Library.Char_ord"
    "HOL-Library.List_Lexorder"
begin

section \<open>Document control automation (docctl.py): a shallow embedding\<close>

text \<open>
  The development follows \<^verbatim>\<open>src/docctl.py\<close> function by function. Python exceptions are
  values of the type \<open>error\<close>; a function that may raise returns \<open>error + 'a\<close>. Spreadsheets
  are lists of rows of cells, directories are association lists from entry names to nodes, and
  Python dictionaries are association lists updated in place (insertion order is kept).
\<close>

subsection \<open>Text\<close>

text \<open>
  Strings are ASCII text. \<^verbatim>\<open>str.strip()\<close> removes the characters Python regards as white
  space: the codes 9 to 13, 28 to 31 and 32. \<^verbatim>\<open>upper()\<close> and \<^verbatim>\<open>lower()\<close> act on
  the letters a to z and A to Z; characters beyond ASCII are left as they are.
\<close>

definition is_space :: "char \<Rightarrow> bool" where
  "is_space c = (let n = (of_char c :: nat) in (9 \<le> n \<and> n \<le> 13) \<or> (28 \<le> n \<and> n \<le> 32))"

definition upper_char :: "char \<Rightarrow> char" where
  "upper_char c = (let n = (of_char c :: nat) in if 97 \<le> n \<and> n \<le> 122 then char_of (n - 32) else c)"

definition lower_char :: "char \<Rightarrow> char" where
  "lower_char c = (let n = (of_char c :: nat) in if 65 \<le> n \<and> n \<le> 90 then char_of (n + 32) else c)"

definition upper :: "string \<Rightarrow> string" where
  "upper s = map upper_char s"

definition lower :: "string \<Rightarrow> string" where
  "lower s = map lower_char s"

definition lstrip :: "string \<Rightarrow> string" where
  "lstrip s = dropWhile is_space s"

definition rstrip :: "string \<Rightarrow> string" where
  "rstrip s = rev (dropWhile is_space (rev s))"

definition strip :: "string \<Rightarrow> string" where
  "strip s = rstrip (lstrip s)"

text \<open>\<^verbatim>\<open>s.rstrip(chars)\<close>: every trailing character that occurs in \<open>chars\<close> is removed.\<close>

definition rstrip_chars :: "string \<Rightarrow> string \<Rightarrow> string" where
  "rstrip_chars chars s = rev (dropWhile (\<lambda>c. c \<in> set chars) (rev s))"

text \<open>\<^verbatim>\<open>sep.join(xs)\<close>\<close>

fun join :: "string \<Rightarrow> string list \<Rightarrow> string" where
  "join sep [] = []"
| "join sep [x] = x"
| "join sep (x # y # ys) = x @ sep @ join sep (y # ys)"

text \<open>\<^verbatim>\<open>str(n)\<close> for a natural number and for an integer: decimal digits, no padding.\<close>

definition digit_char :: "nat \<Rightarrow> char" where
  "digit_char d = char_of (48 + d)"

fun show_nat :: "nat \<Rightarrow> string" where
  "show_nat n = (if n < 10 then [digit_char n] else show_nat (n div 10) @ [digit_char (n mod 10)])"

declare show_nat.simps [simp del]

definition show_int :: "int \<Rightarrow> string" where
  "show_int i = (if i < 0 then CHR ''-'' # show_nat (nat (- i)) else show_nat (nat i))"

subsection \<open>Header normalisation\<close>

text \<open>\<^verbatim>\<open>normalize_header\<close>: \<^verbatim>\<open>value.strip().rstrip(";").upper()\<close>.\<close>

definition normalize_header :: "string \<Rightarrow> string" where
  "normalize_header v = upper (rstrip_chars '';'' (strip v))"

text \<open>
  The reading of the specification's sentence on header normalisation: trim, remove exactly one
  trailing semicolon when there is one, convert to upper case.
\<close>

definition strip_one_semicolon :: "string \<Rightarrow> string" where
  "strip_one_semicolon t = (if t \<noteq> [] \<and> last t = CHR '';'' then butlast t else t)"

definition normalize_header_spec :: "string \<Rightarrow> string" where
  "normalize_header_spec v = upper (strip_one_semicolon (strip v))"

subsection \<open>Cells, errors and field normalisation\<close>

text \<open>
  A cell value as the spreadsheet library delivers it: \<^verbatim>\<open>None\<close>, a string, an integer or
  a date. \<open>py_str\<close> is \<^verbatim>\<open>str(value)\<close>.
\<close>

datatype date = Date nat nat nat

datatype cell = CNone | CStr string | CInt int | CDate date

definition zero_pad :: "nat \<Rightarrow> string \<Rightarrow> string" where
  "zero_pad w s = replicate (w - length s) (CHR ''0'') @ s"

fun str_date :: "date \<Rightarrow> string" where
  "str_date (Date y m d) =
     zero_pad 4 (show_nat y) @ ''-'' @ zero_pad 2 (show_nat m) @ ''-'' @ zero_pad 2 (show_nat d)"

fun py_str :: "cell \<Rightarrow> string" where
  "py_str CNone = ''None''"
| "py_str (CStr s) = s"
| "py_str (CInt i) = show_int i"
| "py_str (CDate d) = str_date d"

text \<open>\<^verbatim>\<open>value is None or str(value).strip() == ""\<close>\<close>

definition is_blank :: "cell \<Rightarrow> bool" where
  "is_blank v = (v = CNone \<or> strip (py_str v) = [])"

text \<open>\<^verbatim>\<open>value in (None, "")\<close>\<close>

definition is_empty_cell :: "cell \<Rightarrow> bool" where
  "is_empty_cell v = (v = CNone \<or> v = CStr [])"

text \<open>
  The exceptions of the program. The first group are the \<^verbatim>\<open>ValueError\<close>s it raises itself,
  one constructor per message; the second group are raised by the Python runtime and the
  libraries (a string method called on a value that is not a string, a missing dictionary key,
  an index out of range, a file that is not a workbook, a directory where a file is expected,
  a path that does not exist).
\<close>

datatype error =
    HeaderMismatch
  | EmptyHeaderCell
  | MissingColumn string
  | MissingRequiredField string
  | EmptyField string
  | InvalidDate
  | DuplicateVersion
  | NoValidRows
  | ValidationErrors
  | AttributeError
  | KeyError string
  | IndexError
  | InvalidWorkbook
  | IsADirectoryError
  | FileNotFoundError

fun map_err :: "('a \<Rightarrow> error + 'b) \<Rightarrow> 'a list \<Rightarrow> error + 'b list" where
  "map_err f [] = Inr []"
| "map_err f (x # xs) =
     (case f x of
        Inl e \<Rightarrow> Inl e
      | Inr y \<Rightarrow> (case map_err f xs of Inl e \<Rightarrow> Inl e | Inr ys \<Rightarrow> Inr (y # ys)))"

definition normalize_version :: "cell \<Rightarrow> error + string" where
  "normalize_version v =
     (if is_blank v then Inl (EmptyField ''VERSION'') else Inr (strip (py_str v)))"

definition normalize_doc_number :: "cell \<Rightarrow> error + string" where
  "normalize_doc_number v =
     (if is_blank v then Inl (EmptyField ''DOCUMENT NUMBER 1'') else Inr (lower (strip (py_str v))))"

text \<open>
  \<^verbatim>\<open>coerce_date\<close>. The free-text date parser is a library outside the repository; it is the
  parameter \<open>parse\<close>, which returns \<open>None\<close> where the library raises.
\<close>

definition coerce_date :: "(string \<Rightarrow> date option) \<Rightarrow> cell \<Rightarrow> error + cell" where
  "coerce_date parse v =
     (case v of
        CDate d \<Rightarrow> Inr (CDate d)
      | CNone \<Rightarrow> Inl (EmptyField ''DATE'')
      | _ \<Rightarrow>
          (let text = strip (py_str v) in
           if text = [] then Inl (EmptyField ''DATE'')
           else (case parse text of Some d \<Rightarrow> Inr (CDate d) | None \<Rightarrow> Inl InvalidDate)))"

text \<open>\<^verbatim>\<open>normalize_header\<close> applied to a cell value: a value that is not a string has no \<^verbatim>\<open>strip\<close>.\<close>

fun normalize_header_cell :: "cell \<Rightarrow> error + string" where
  "normalize_header_cell (CStr s) = Inr (normalize_header s)"
| "normalize_header_cell _ = Inl AttributeError"

text \<open>\<^verbatim>\<open>c.value or ""\<close>: \<^verbatim>\<open>None\<close>, the empty string and the integer zero are falsy.\<close>

fun or_empty :: "cell \<Rightarrow> cell" where
  "or_empty CNone = CStr []"
| "or_empty (CStr s) = CStr s"
| "or_empty (CInt i) = (if i = 0 then CStr [] else CInt i)"
| "or_empty (CDate d) = CDate d"

subsection \<open>The fixed schema\<close>

definition EXPECTED_HEADERS :: "string list" where
  "EXPECTED_HEADERS =
     [''TRANSMITTAL NUMBER'', ''TRANSMITTAL NAME'', ''DATE'', ''ITEM'', ''DOCUMENT NUMBER 1'',
      ''DOCUMENT NUMBER 2'', ''TITLE'', ''VERSION'', ''DOCUMENT STATE'', ''ISSUE OBJECTIVE'',
      ''HOLD LIST'', ''ISSUED BY'', ''ISSUED TO'']"

definition DATABASE_HEADERS :: "string list" where
  "DATABASE_HEADERS = EXPECTED_HEADERS @ [''FILENAMES'']"

text \<open>
  \<^verbatim>\<open>REQUIRED_FIELDS\<close> is a Python set; it is listed here in the order of the source text.
  The order only decides which field an error message names when several are empty.
\<close>

definition REQUIRED_FIELDS :: "string list" where
  "REQUIRED_FIELDS =
     [''TRANSMITTAL NUMBER'', ''DATE'', ''ITEM'', ''DOCUMENT NUMBER 1'', ''TITLE'', ''VERSION'']"

subsection \<open>Dictionaries and validated rows\<close>

type_synonym row_dict = "(string \<times> cell) list"

text \<open>\<^verbatim>\<open>d.get(k)\<close> and \<^verbatim>\<open>d[k]\<close>\<close>

definition dict_get :: "row_dict \<Rightarrow> string \<Rightarrow> cell" where
  "dict_get d k = (case map_of d k of None \<Rightarrow> CNone | Some v \<Rightarrow> v)"

definition dict_index :: "row_dict \<Rightarrow> string \<Rightarrow> error + cell" where
  "dict_index d k = (case map_of d k of None \<Rightarrow> Inl (KeyError k) | Some v \<Rightarrow> Inr v)"

text \<open>A dictionary filled by assigning the pairs one after the other.\<close>

definition dict_of :: "(string \<times> cell) list \<Rightarrow> row_dict" where
  "dict_of kvs = foldl (\<lambda>d (k, v). AList.update k v d) [] kvs"

record transmittal_row =
  raw :: row_dict
  normalized_doc :: string
  normalized_version :: string
  filenames :: "string list"

subsection \<open>Sheets\<close>

text \<open>
  A sheet is the list of its rows, each row the list of its cells up to the last one stored.
  The library presents every row padded with empty cells up to the widest row of the sheet
  (\<^verbatim>\<open>max_column\<close>, which is 1 for a sheet without cells).
\<close>

type_synonym sheet = "cell list list"

definition max_column :: "sheet \<Rightarrow> nat" where
  "max_column sh = foldr (\<lambda>r m. max (length r) m) sh 1"

definition pad_row :: "nat \<Rightarrow> cell list \<Rightarrow> cell list" where
  "pad_row w r = r @ replicate (w - length r) CNone"

text \<open>\<^verbatim>\<open>next(sheet.iter_rows(min_row=1, max_row=1))\<close> and \<^verbatim>\<open>sheet[1]\<close>\<close>

definition first_row :: "sheet \<Rightarrow> cell list" where
  "first_row sh = pad_row (max_column sh) (case sh of [] \<Rightarrow> [] | r # _ \<Rightarrow> r)"

text \<open>\<^verbatim>\<open>sheet.iter_rows(min_row=2)\<close>\<close>

definition data_rows :: "sheet \<Rightarrow> cell list list" where
  "data_rows sh = map (pad_row (max_column sh)) (tl sh)"

text \<open>\<^verbatim>\<open>all(cell.value in (None, "") for cell in row)\<close>\<close>

definition blank_row :: "cell list \<Rightarrow> bool" where
  "blank_row row = list_all is_empty_cell row"

text \<open>\<^verbatim>\<open>read_sheet_rows\<close>\<close>

definition read_sheet_rows :: "sheet \<Rightarrow> error + row_dict list" where
  "read_sheet_rows sh =
     (let headers = first_row sh in
      if CNone \<in> set headers then Inl EmptyHeaderCell
      else
        (case map_err normalize_header_cell headers of
           Inl e \<Rightarrow> Inl e
         | Inr names \<Rightarrow>
             (case find (\<lambda>expected. expected \<notin> set names) EXPECTED_HEADERS of
                Some expected \<Rightarrow> Inl (MissingColumn expected)
              | None \<Rightarrow>
                  Inr (map (\<lambda>row. dict_of (zip names row))
                         (filter (\<lambda>row. \<not> blank_row row) (data_rows sh))))))"

subsection \<open>Directories and the file matcher\<close>

text \<open>
  A file is a workbook that the spreadsheet library can load, or anything else. A directory
  is the list of its entries, each name once; the order is the order of \<^verbatim>\<open>iterdir()\<close>.
\<close>

datatype content = Workbook sheet | Blob string

datatype node = File content | Dir "(string \<times> node) list"

type_synonym directory = "(string \<times> node) list"

fun is_dir :: "node \<Rightarrow> bool" where
  "is_dir (Dir _) = True"
| "is_dir (File _) = False"

fun is_file :: "node \<Rightarrow> bool" where
  "is_file (File _) = True"
| "is_file (Dir _) = False"

text \<open>\<^verbatim>\<open>find_matching_files\<close>; \<open>log_file\<close> is the name of the manifest inside the directory.\<close>

definition find_matching_files :: "directory \<Rightarrow> string \<Rightarrow> string \<Rightarrow> string list" where
  "find_matching_files transmittal_dir doc_number log_file =
     sort (map fst (filter (\<lambda>(name, entry).
        \<not> (name = log_file \<or> is_dir entry) \<and> sublist doc_number (lower name)) transmittal_dir))"

subsection \<open>The persistent tables\<close>

text \<open>
  A persistent table is \<open>None\<close> while its file does not exist and \<open>Some\<close> sheet afterwards.
  \<^verbatim>\<open>ensure_workbook\<close> returns the sheet it opened or created.
\<close>

definition ensure_workbook :: "sheet option \<Rightarrow> string list \<Rightarrow> error + sheet" where
  "ensure_workbook path headers =
     (case path of
        Some sh \<Rightarrow>
          (case map_err (\<lambda>c. normalize_header_cell (or_empty c)) (first_row sh) of
             Inl e \<Rightarrow> Inl e
           | Inr existing_headers \<Rightarrow>
               if existing_headers \<noteq> map normalize_header headers then Inl HeaderMismatch
               else Inr sh)
      | None \<Rightarrow> Inr [map CStr headers])"

text \<open>\<^verbatim>\<open>{h: idx for idx, h in enumerate(headers)}\<close>: a repeated header keeps its last index.\<close>

definition header_map_of :: "string list \<Rightarrow> (string \<times> nat) list" where
  "header_map_of headers =
     foldl (\<lambda>m (idx, h). AList.update h idx m) [] (enumerate 0 headers)"

text \<open>\<^verbatim>\<open>row[i].value\<close>\<close>

definition cell_at :: "cell list \<Rightarrow> nat \<Rightarrow> error + cell" where
  "cell_at row i = (if i < length row then Inr (row ! i) else Inl IndexError)"

text \<open>The loop of \<^verbatim>\<open>load_existing_versions\<close> over the data rows, with the set \<open>seen\<close>.\<close>

fun load_rows :: "nat \<Rightarrow> nat \<Rightarrow> cell list list \<Rightarrow> (string \<times> string) set
    \<Rightarrow> error + (string \<times> string) set" where
  "load_rows di vi [] seen = Inr seen"
| "load_rows di vi (row # rows) seen =
     (case cell_at row di of
        Inl e \<Rightarrow> Inl e
      | Inr doc_val \<Rightarrow>
     (case cell_at row vi of
        Inl e \<Rightarrow> Inl e
      | Inr ver_val \<Rightarrow>
          if is_empty_cell doc_val \<or> is_empty_cell ver_val then load_rows di vi rows seen
          else
            (case normalize_doc_number doc_val of
               Inl e \<Rightarrow> Inl e
             | Inr d \<Rightarrow>
            (case normalize_version ver_val of
               Inl e \<Rightarrow> Inl e
             | Inr v \<Rightarrow> load_rows di vi rows (insert (d, lower v) seen)))))"

definition load_existing_versions :: "sheet option \<Rightarrow> error + (string \<times> string) set" where
  "load_existing_versions db_path =
     (case db_path of
        None \<Rightarrow> Inr {}
      | Some sh \<Rightarrow>
          (case map_err (\<lambda>c. normalize_header_cell (or_empty c)) (first_row sh) of
             Inl e \<Rightarrow> Inl e
           | Inr headers \<Rightarrow>
               (let header_map = header_map_of headers in
                case (map_of header_map ''DOCUMENT NUMBER 1'', map_of header_map ''VERSION'') of
                  (Some di, Some vi) \<Rightarrow> load_rows di vi (data_rows sh) {}
                | _ \<Rightarrow> Inl HeaderMismatch)))"

text \<open>The row that \<^verbatim>\<open>append_to_database\<close> writes for one validated row.\<close>

definition database_values :: "transmittal_row \<Rightarrow> cell list" where
  "database_values row =
     map (dict_get (raw row)) EXPECTED_HEADERS @ [CStr (join ''; '' (filenames row))]"

fun append_rows :: "sheet \<Rightarrow> transmittal_row list \<Rightarrow> sheet" where
  "append_rows sh [] = sh"
| "append_rows sh (row # rows) = append_rows (sh @ [database_values row]) rows"

definition append_to_database :: "sheet option \<Rightarrow> transmittal_row list \<Rightarrow> error + sheet" where
  "append_to_database db_path rows =
     (case ensure_workbook db_path DATABASE_HEADERS of
        Inl e \<Rightarrow> Inl e
      | Inr sh \<Rightarrow> Inr (append_rows sh rows))"

text \<open>
  \<^verbatim>\<open>update_document_list\<close>. \<open>existing\<close> is the dictionary from document key to record, in
  insertion order; \<open>load_existing\<close> is the loop that fills it from the stored rows.
\<close>

definition record_of :: "cell list \<Rightarrow> cell list \<Rightarrow> error + row_dict" where
  "record_of header row =
     (case map_err (\<lambda>(h, c). case normalize_header_cell h of
                                 Inl e \<Rightarrow> Inl e
                               | Inr k \<Rightarrow> Inr (k, c)) (zip header row) of
        Inl e \<Rightarrow> Inl e
      | Inr kvs \<Rightarrow> Inr (dict_of kvs))"

fun load_existing :: "cell list \<Rightarrow> cell list list \<Rightarrow> (string \<times> row_dict) list
    \<Rightarrow> error + (string \<times> row_dict) list" where
  "load_existing header [] existing = Inr existing"
| "load_existing header (row # rows) existing =
     (if blank_row row then load_existing header rows existing
      else
        (case record_of header row of
           Inl e \<Rightarrow> Inl e
         | Inr record \<Rightarrow>
        (case dict_index record ''DOCUMENT NUMBER 1'' of
           Inl e \<Rightarrow> Inl e
         | Inr doc_val \<Rightarrow>
        (case normalize_doc_number doc_val of
           Inl e \<Rightarrow> Inl e
         | Inr doc_key \<Rightarrow> load_existing header rows (AList.update doc_key record existing)))))"

fun overwrite_rows :: "(string \<times> row_dict) list \<Rightarrow> transmittal_row list
    \<Rightarrow> (string \<times> row_dict) list" where
  "overwrite_rows existing [] = existing"
| "overwrite_rows existing (row # rows) =
     overwrite_rows (AList.update (normalized_doc row) (raw row) existing) rows"

definition update_document_list :: "sheet option \<Rightarrow> transmittal_row list \<Rightarrow> error + sheet" where
  "update_document_list doc_list_path rows =
     (case ensure_workbook doc_list_path EXPECTED_HEADERS of
        Inl e \<Rightarrow> Inl e
      | Inr sh \<Rightarrow>
          (case load_existing (first_row sh) (data_rows sh) [] of
             Inl e \<Rightarrow> Inl e
           | Inr existing \<Rightarrow>
               Inr (take 1 sh @
                    map (\<lambda>(key, record). map (dict_get record) EXPECTED_HEADERS)
                      (overwrite_rows existing rows))))"


subsection \<open>Relocation\<close>

text \<open>
  The loop of \<^verbatim>\<open>move_transmittal\<close>: \<open>candidate.exists()\<close> holds when the destination root
  has an entry of that name. The loop ends because the root has finitely many entries and the
  names it tries are pairwise different.
\<close>

lemma digit_char_inj: "a < 10 \<Longrightarrow> b < 10 \<Longrightarrow> digit_char a = digit_char b \<Longrightarrow> a = b"
proof -
  assume a: "a < 10" and b: "b < 10" and e: "digit_char a = digit_char b"
  have c: "(of_char (digit_char d) :: nat) = 48 + d" if "d < 10" for d
    unfolding digit_char_def of_char_of by (rule mod_less) (use that in arith)
  from e have "(of_char (digit_char a) :: nat) = of_char (digit_char b)" by (rule arg_cong)
  then show "a = b" using c[OF a] c[OF b] by linarith
qed

lemma show_nat_nonempty: "show_nat n \<noteq> []"
  by (subst show_nat.simps) simp

lemma show_nat_inj: "show_nat n = show_nat m \<Longrightarrow> n = m"
proof (induction n arbitrary: m rule: show_nat.induct)
  case (1 n)
  show ?case
  proof (cases "n < 10")
    case n: True
    show ?thesis
    proof (cases "m < 10")
      case True
      with n "1.prems" show ?thesis
        by (simp add: show_nat.simps[of n] show_nat.simps[of m] digit_char_inj)
    next
      case False
      with n "1.prems" show_nat_nonempty[of "m div 10"] show ?thesis
        by (simp add: show_nat.simps[of n] show_nat.simps[of m] Cons_eq_append_conv)
    qed
  next
    case n: False
    show ?thesis
    proof (cases "m < 10")
      case True
      with n "1.prems" show_nat_nonempty[of "n div 10"] show ?thesis
        by (simp add: show_nat.simps[of n] show_nat.simps[of m] append_eq_Cons_conv)
    next
      case False
      with n "1.prems" have e: "show_nat (n div 10) = show_nat (m div 10)"
        and d: "digit_char (n mod 10) = digit_char (m mod 10)"
        by (simp_all add: show_nat.simps[of n] show_nat.simps[of m])
      from "1.IH"[OF n e] have "n div 10 = m div 10" .
      moreover from d have "n mod 10 = m mod 10" by (simp add: digit_char_inj)
      ultimately show ?thesis by (metis div_mult_mod_eq)
    qed
  qed
qed

definition suffixed :: "string \<Rightarrow> nat \<Rightarrow> string" where
  "suffixed name counter = name @ ''-'' @ show_nat counter"

lemma suffixed_inj: "suffixed name j = suffixed name k \<Longrightarrow> j = k"
  by (simp add: suffixed_def show_nat_inj)

function free_name :: "directory \<Rightarrow> string \<Rightarrow> nat \<Rightarrow> string \<Rightarrow> string" where
  "free_name dest_root name counter candidate =
     (if candidate \<in> fst ` set dest_root
      then free_name dest_root name (counter + 1) (suffixed name counter)
      else candidate)"
  by pat_completeness auto

definition taken_from :: "directory \<Rightarrow> string \<Rightarrow> nat \<Rightarrow> nat set" where
  "taken_from dest_root name counter = {k. counter \<le> k \<and> suffixed name k \<in> fst ` set dest_root}"

lemma taken_from_finite: "finite (taken_from dest_root name counter)"
proof -
  have "taken_from dest_root name counter \<subseteq> (suffixed name) -` (fst ` set dest_root)"
    by (auto simp: taken_from_def)
  moreover have "finite ((suffixed name) -` (fst ` set dest_root))"
    by (rule finite_vimageI) (auto simp: inj_on_def dest: suffixed_inj)
  ultimately show ?thesis by (rule finite_subset)
qed

lemma taken_from_step:
  "card (taken_from dest_root name (Suc counter))
     + (if suffixed name counter \<in> fst ` set dest_root then 1 else 0)
   = card (taken_from dest_root name counter)"
proof (cases "suffixed name counter \<in> fst ` set dest_root")
  case True
  have "taken_from dest_root name counter = insert counter (taken_from dest_root name (Suc counter))"
    using True by (auto simp: taken_from_def Suc_le_eq le_less)
  moreover have "counter \<notin> taken_from dest_root name (Suc counter)"
    by (simp add: taken_from_def)
  ultimately show ?thesis using True by (simp add: taken_from_finite)
next
  case False
  have "taken_from dest_root name counter = taken_from dest_root name (Suc counter)"
    using False by (auto simp: taken_from_def Suc_le_eq le_less)
  then show ?thesis using False by simp
qed

termination free_name
proof (relation "measure (\<lambda>(dest_root, name, counter, candidate).
    card (taken_from dest_root name counter) + (if candidate \<in> fst ` set dest_root then 1 else 0))")
  show "wf (measure (\<lambda>(dest_root, name, counter, candidate).
    card (taken_from dest_root name counter) + (if candidate \<in> fst ` set dest_root then 1 else 0)))"
    by simp
next
  fix dest_root :: directory and name :: string and counter :: nat and candidate :: string
  assume "candidate \<in> fst ` set dest_root"
  then show "((dest_root, name, counter + 1, suffixed name counter), (dest_root, name, counter, candidate))
    \<in> measure (\<lambda>(dest_root, name, counter, candidate).
      card (taken_from dest_root name counter) + (if candidate \<in> fst ` set dest_root then 1 else 0))"
    using taken_from_step[of dest_root name counter] by simp
qed

declare free_name.simps [simp del]

text \<open>
  \<^verbatim>\<open>move_transmittal\<close>: the entry \<open>src\<close> of the directory \<open>parent\<close> moves into \<open>dest_root\<close>
  under the first free name. The result is that name and the two directories afterwards.
\<close>

definition move_transmittal :: "string \<Rightarrow> directory \<Rightarrow> directory
    \<Rightarrow> error + (string \<times> directory \<times> directory)" where
  "move_transmittal src parent dest_root =
     (let candidate = free_name dest_root src 1 src in
      case map_of parent src of
        None \<Rightarrow> Inl FileNotFoundError
      | Some entry \<Rightarrow> Inr (candidate, AList.delete src parent, dest_root @ [(candidate, entry)]))"

subsection \<open>The Current Files mirror\<close>

text \<open>
  \<^verbatim>\<open>shutil.copy2(src, dest)\<close> with \<open>dest = current_dir / fname\<close>: a destination that is a
  directory receives the file inside it. File-system operations have no faults of their own
  (permissions, full disks) in this model.
\<close>

definition copy2 :: "content \<Rightarrow> string \<Rightarrow> directory \<Rightarrow> error + directory" where
  "copy2 src fname current_dir =
     (case map_of current_dir fname of
        Some (Dir sub) \<Rightarrow>
          (case map_of sub fname of
             Some (Dir _) \<Rightarrow> Inl IsADirectoryError
           | _ \<Rightarrow> Inr (AList.update fname (Dir (AList.update fname (File src) sub)) current_dir))
      | _ \<Rightarrow> Inr (AList.update fname (File src) current_dir))"

text \<open>The inner loop over \<^verbatim>\<open>row.filenames\<close>.\<close>

fun copy_files :: "directory \<Rightarrow> string list \<Rightarrow> directory \<Rightarrow> error + directory" where
  "copy_files transmittal_dir [] current_dir = Inr current_dir"
| "copy_files transmittal_dir (fname # fnames) current_dir =
     (case map_of transmittal_dir fname of
        None \<Rightarrow> copy_files transmittal_dir fnames current_dir
      | Some (Dir _) \<Rightarrow> Inl IsADirectoryError
      | Some (File src) \<Rightarrow>
          (case copy2 src fname current_dir of
             Inl e \<Rightarrow> Inl e
           | Inr current_dir' \<Rightarrow> copy_files transmittal_dir fnames current_dir'))"

text \<open>The loop that unlinks the outdated files of one document.\<close>

definition remove_outdated :: "string \<Rightarrow> directory \<Rightarrow> directory" where
  "remove_outdated doc_key current_dir =
     filter (\<lambda>(name, existing). \<not> (is_file existing \<and> sublist doc_key (lower name))) current_dir"

fun sync_rows :: "directory \<Rightarrow> transmittal_row list \<Rightarrow> string set \<Rightarrow> directory
    \<Rightarrow> error + directory" where
  "sync_rows transmittal_dir [] processed_docs current_dir = Inr current_dir"
| "sync_rows transmittal_dir (row # rows) processed_docs current_dir =
     (let doc_key = normalized_doc row;
          cleaned = (if doc_key \<notin> processed_docs then remove_outdated doc_key current_dir
                     else current_dir)
      in case copy_files transmittal_dir (filenames row) cleaned of
           Inl e \<Rightarrow> Inl e
         | Inr current_dir' \<Rightarrow>
             sync_rows transmittal_dir rows (insert doc_key processed_docs) current_dir')"

definition sync_current_files :: "directory \<Rightarrow> directory \<Rightarrow> transmittal_row list
    \<Rightarrow> error + directory" where
  "sync_current_files current_dir transmittal_dir rows = sync_rows transmittal_dir rows {} current_dir"

subsection \<open>Validation of a transmittal\<close>

text \<open>The body of the inner \<^verbatim>\<open>try\<close> of \<^verbatim>\<open>process_transmittal\<close>, for one manifest row.\<close>

definition validate_row :: "(string \<Rightarrow> date option) \<Rightarrow> (string \<times> string) set \<Rightarrow> directory
    \<Rightarrow> string \<Rightarrow> row_dict \<Rightarrow> error + transmittal_row" where
  "validate_row parse existing_versions transmittal_dir log_file raw_row =
     (case find (\<lambda>field. is_blank (dict_get raw_row field)) REQUIRED_FIELDS of
        Some field \<Rightarrow> Inl (MissingRequiredField field)
      | None \<Rightarrow>
     (case dict_index raw_row ''DOCUMENT NUMBER 1'' of
        Inl e \<Rightarrow> Inl e
      | Inr doc_val \<Rightarrow>
     (case normalize_doc_number doc_val of
        Inl e \<Rightarrow> Inl e
      | Inr doc \<Rightarrow>
     (case dict_index raw_row ''VERSION'' of
        Inl e \<Rightarrow> Inl e
      | Inr ver_val \<Rightarrow>
     (case normalize_version ver_val of
        Inl e \<Rightarrow> Inl e
      | Inr version \<Rightarrow>
          if (doc, lower version) \<in> existing_versions then Inl DuplicateVersion
          else
            (case dict_index raw_row ''DATE'' of
               Inl e \<Rightarrow> Inl e
             | Inr date_val \<Rightarrow>
            (case coerce_date parse date_val of
               Inl e \<Rightarrow> Inl e
             | Inr d \<Rightarrow>
                 Inr \<lparr>raw = AList.update ''DATE'' d raw_row,
                      normalized_doc = doc,
                      normalized_version = version,
                      filenames = find_matching_files transmittal_dir doc log_file\<rparr>)))))))"

text \<open>
  The loop over the manifest rows: \<open>idx\<close> is the row number, \<open>processed_rows\<close> and \<open>errors\<close>
  are the two lists the loop appends to.
\<close>

fun validate_rows :: "(string \<Rightarrow> date option) \<Rightarrow> (string \<times> string) set \<Rightarrow> directory
    \<Rightarrow> string \<Rightarrow> row_dict list \<Rightarrow> nat \<Rightarrow> transmittal_row list \<Rightarrow> (nat \<times> error) list
    \<Rightarrow> transmittal_row list \<times> (nat \<times> error) list" where
  "validate_rows parse existing_versions transmittal_dir log_file [] idx processed_rows errors =
     (processed_rows, errors)"
| "validate_rows parse existing_versions transmittal_dir log_file (raw_row # raw_rows) idx
       processed_rows errors =
     (case validate_row parse existing_versions transmittal_dir log_file raw_row of
        Inl exc \<Rightarrow>
          validate_rows parse existing_versions transmittal_dir log_file raw_rows (idx + 1)
            processed_rows (errors @ [(idx, exc)])
      | Inr row \<Rightarrow>
          validate_rows parse existing_versions transmittal_dir log_file raw_rows (idx + 1)
            (processed_rows @ [row]) errors)"

text \<open>\<^verbatim>\<open>load_workbook(log_file)\<close> followed by \<^verbatim>\<open>workbook.active\<close>\<close>

fun load_workbook :: "node \<Rightarrow> error + sheet" where
  "load_workbook (File (Workbook sh)) = Inr sh"
| "load_workbook (File (Blob _)) = Inl InvalidWorkbook"
| "load_workbook (Dir _) = Inl IsADirectoryError"

text \<open>
  The outer \<^verbatim>\<open>try\<close> block: \<open>Inl\<close> is an exception that the \<^verbatim>\<open>except\<close> clause catches
  (the transmittal is rejected), \<open>Inr\<close> the rows with which the function goes on.
\<close>

definition validate_transmittal :: "(string \<Rightarrow> date option) \<Rightarrow> (string \<times> string) set
    \<Rightarrow> directory \<Rightarrow> string \<Rightarrow> node \<Rightarrow> error + transmittal_row list" where
  "validate_transmittal parse existing_versions transmittal_dir log_file log_node =
     (case load_workbook log_node of
        Inl e \<Rightarrow> Inl e
      | Inr sh \<Rightarrow>
     (case read_sheet_rows sh of
        Inl e \<Rightarrow> Inl e
      | Inr raw_rows \<Rightarrow>
          (case validate_rows parse existing_versions transmittal_dir log_file raw_rows 2 [] [] of
             (processed_rows, errors) \<Rightarrow>
               if processed_rows = [] then Inl NoValidRows
               else if errors \<noteq> [] then Inl ValidationErrors
               else Inr processed_rows)))"

subsection \<open>Processing one transmittal\<close>

text \<open>
  The project: the two persistent tables and the four directories. \<open>process_transmittal\<close>
  returns the project afterwards, or the exception that ends the run.
\<close>

record project =
  database :: "sheet option"
  doc_list :: "sheet option"
  current :: directory
  pending :: directory
  accepted :: directory
  rejected :: directory

text \<open>The entries of the directory \<open>parent / name\<close>; none when it is not a directory.\<close>

definition entries_of :: "directory \<Rightarrow> string \<Rightarrow> directory" where
  "entries_of parent name = (case map_of parent name of Some (Dir entries) \<Rightarrow> entries | _ \<Rightarrow> [])"

definition reject_transmittal :: "project \<Rightarrow> string \<Rightarrow> error + project" where
  "reject_transmittal st name =
     (case move_transmittal name (pending st) (rejected st) of
        Inl e \<Rightarrow> Inl e
      | Inr (moved_path, pending', rejected') \<Rightarrow>
          Inr (st\<lparr>pending := pending', rejected := rejected'\<rparr>))"

definition accept_transmittal :: "project \<Rightarrow> string \<Rightarrow> transmittal_row list \<Rightarrow> error + project" where
  "accept_transmittal st name processed_rows =
     (case append_to_database (database st) processed_rows of
        Inl e \<Rightarrow> Inl e
      | Inr db \<Rightarrow>
     (case update_document_list (doc_list st) processed_rows of
        Inl e \<Rightarrow> Inl e
      | Inr dl \<Rightarrow>
     (case sync_current_files (current st) (entries_of (pending st) name) processed_rows of
        Inl e \<Rightarrow> Inl e
      | Inr cur \<Rightarrow>
     (case move_transmittal name (pending st) (accepted st) of
        Inl e \<Rightarrow> Inl e
      | Inr (moved_path, pending', accepted') \<Rightarrow>
          Inr (st\<lparr>database := Some db, doc_list := Some dl, current := cur,
                  pending := pending', accepted := accepted'\<rparr>)))))"

definition process_transmittal :: "(string \<Rightarrow> date option) \<Rightarrow> project \<Rightarrow> string \<Rightarrow> error + project" where
  "process_transmittal parse st name =
     (let transmittal_dir = entries_of (pending st) name;
          log_file = name @ ''.xlsx''
      in case map_of transmittal_dir log_file of
           None \<Rightarrow> reject_transmittal st name
         | Some log_node \<Rightarrow>
             (case load_existing_versions (database st) of
                Inl e \<Rightarrow> Inl e
              | Inr existing_versions \<Rightarrow>
                  (case validate_transmittal parse existing_versions transmittal_dir log_file log_node of
                     Inl exc \<Rightarrow> reject_transmittal st name
                   | Inr processed_rows \<Rightarrow> accept_transmittal st name processed_rows)))"

subsection \<open>Notions used in the properties\<close>

text \<open>
  The test of \<^verbatim>\<open>load_existing_versions\<close> under which a stored row is passed over: its
  document cell or its version cell is \<^verbatim>\<open>None\<close> or the empty string.
\<close>

definition skipped_row :: "nat \<Rightarrow> nat \<Rightarrow> cell list \<Rightarrow> bool" where
  "skipped_row di vi row =
     (di < length row \<and> vi < length row \<and> (is_empty_cell (row ! di) \<or> is_empty_cell (row ! vi)))"

text \<open>The pair that a manifest row submits: trimmed, lower-cased identifier and version.\<close>

definition version_key :: "row_dict \<Rightarrow> string \<times> string" where
  "version_key raw_row =
     (lower (strip (py_str (dict_get raw_row ''DOCUMENT NUMBER 1''))),
      lower (strip (py_str (dict_get raw_row ''VERSION''))))"

text \<open>What one manifest row adds to the two lists of the validation loop.\<close>

definition valid_of :: "error + transmittal_row \<Rightarrow> transmittal_row option" where
  "valid_of r = (case r of Inr row \<Rightarrow> Some row | Inl e \<Rightarrow> None)"

definition error_of :: "nat \<times> (error + transmittal_row) \<Rightarrow> (nat \<times> error) option" where
  "error_of r = (case r of (idx, Inl e) \<Rightarrow> Some (idx, e) | (idx, Inr row) \<Rightarrow> None)"

subsection \<open>Example data\<close>

definition ex_header :: "cell list" where
  "ex_header = map CStr EXPECTED_HEADERS"

definition ex_row :: "string \<Rightarrow> string \<Rightarrow> string \<Rightarrow> cell list" where
  "ex_row doc title version =
     [CStr ''T-001'', CNone, CDate (Date 2024 1 5), CInt 1, CStr doc, CNone, CStr title, CStr version]"

definition ex_raw :: "string \<Rightarrow> string \<Rightarrow> string \<Rightarrow> row_dict" where
  "ex_raw doc title version = dict_of (zip EXPECTED_HEADERS (pad_row 13 (ex_row doc title version)))"

definition ex_history :: sheet where
  "ex_history =
     [map CStr DATABASE_HEADERS,
      ex_row ''spec-100'' ''Spec'' ''b'' @ replicate 5 CNone @ [CStr ''spec-100.pdf''],
      ex_row ''SPEC-300'' ''Spec'' [] @ replicate 5 CNone @ [CStr ''spec-300.pdf'']]"

definition no_parse :: "string \<Rightarrow> date option" where
  "no_parse text = None"

definition ex_transmittal :: "string \<Rightarrow> cell list list \<Rightarrow> string list \<Rightarrow> string \<times> node" where
  "ex_transmittal name rows files =
     (name, Dir ((name @ ''.xlsx'', File (Workbook (ex_header # rows)))
                 # map (\<lambda>f. (f, File (Blob f))) files))"

definition ex_project :: "sheet option \<Rightarrow> directory \<Rightarrow> project" where
  "ex_project db pend =
     \<lparr>database = db, doc_list = None, current = [], pending = pend, accepted = [], rejected = []\<rparr>"

definition ex_short_history :: sheet where
  "ex_short_history = [[CStr ''Version'', CStr ''Document Number 1''], [CStr ''B'', CStr ''SPEC-100'']]"





section \<open>Properties\<close>

subsection \<open>Text lemmas\<close>

lemma rev_dropWhile_decomp:
  "s = rev (dropWhile P (rev s)) @ rev (takeWhile P (rev s))"
  by (metis rev_append rev_rev_ident takeWhile_dropWhile_id)

lemma rev_dropWhile_last:
  "rev (dropWhile P (rev s)) = [] \<or> \<not> P (last (rev (dropWhile P (rev s))))"
  by (cases "dropWhile P (rev s) = []") (auto simp: last_rev hd_dropWhile)

lemma strip_decomp:
  "\<exists>a b. v = a @ strip v @ b \<and> list_all is_space a \<and> list_all is_space b"
proof -
  let ?l = "dropWhile is_space v"
  have 1: "v = takeWhile is_space v @ ?l" by simp
  have 2: "?l = strip v @ rev (takeWhile is_space (rev ?l))"
    unfolding strip_def rstrip_def lstrip_def by (rule rev_dropWhile_decomp)
  have 3: "list_all is_space (takeWhile is_space v)"
    by (simp add: list_all_iff) (meson set_takeWhileD)
  have 4: "list_all is_space (rev (takeWhile is_space (rev ?l)))"
    by (simp add: list_all_iff) (meson set_takeWhileD)
  from 1 2 have "v = takeWhile is_space v @ strip v @ rev (takeWhile is_space (rev ?l))" by simp
  with 3 4 show ?thesis by blast
qed

lemma strip_ends:
  "strip v = [] \<or> (\<not> is_space (hd (strip v)) \<and> \<not> is_space (last (strip v)))"
proof (cases "strip v = []")
  case True then show ?thesis by simp
next
  case False
  let ?l = "dropWhile is_space v"
  have l: "?l \<noteq> []"
  proof
    assume e: "?l = []"
    have "strip v = rev (dropWhile is_space (rev ?l))" by (simp add: strip_def rstrip_def lstrip_def)
    also have "\<dots> = []" by (subst e) simp
    finally show False using False by simp
  qed
  have "rstrip (lstrip v) = [] \<or> \<not> is_space (last (rstrip (lstrip v)))"
    unfolding rstrip_def by (rule rev_dropWhile_last)
  then have a: "\<not> is_space (last (strip v))"
    using False unfolding strip_def by blast
  have "?l = strip v @ rev (takeWhile is_space (rev ?l))"
    unfolding strip_def rstrip_def lstrip_def by (rule rev_dropWhile_decomp)
  then have "hd ?l = hd (strip v)" using False by (metis hd_append2)
  moreover have "\<not> is_space (hd ?l)" using l by (rule hd_dropWhile)
  ultimately show ?thesis using a by simp
qed

lemma rstrip_chars_decomp:
  "\<exists>k. s = rstrip_chars [c] s @ replicate k c \<and> (rstrip_chars [c] s = [] \<or> last (rstrip_chars [c] s) \<noteq> c)"
proof -
  let ?P = "\<lambda>x. x \<in> set [c]"
  let ?t = "rev (takeWhile ?P (rev s))"
  have "\<forall>y\<in>set ?t. y = c" using set_takeWhileD by fastforce
  then have "replicate (length ?t) c = ?t" by (rule replicate_length_same)
  moreover have "s = rstrip_chars [c] s @ ?t"
    unfolding rstrip_chars_def by (rule rev_dropWhile_decomp)
  moreover have "rstrip_chars [c] s = [] \<or> last (rstrip_chars [c] s) \<noteq> c"
    using rev_dropWhile_last[of ?P s] by (simp add: rstrip_chars_def)
  ultimately show ?thesis by metis
qed

subsection \<open>Header normalisation (C8)\<close>

text \<open>
  C8, as stated, fails: the specification's reading removes exactly one trailing semicolon,
  the code removes all of them. On the header \<open>a;;\<close> the code returns \<open>A\<close> and the
  specification's reading returns \<open>A;\<close>.
\<close>

theorem normalize_header_one_semicolon_counterexample:
  "normalize_header ''a;;'' = ''A'' \<and> normalize_header_spec ''a;;'' = ''A;''"
  by code_simp

text \<open>
  C8, amended: for every input string, header normalisation returns the string with the
  surrounding white space trimmed, every trailing semicolon of the trimmed string removed, and
  the result converted to upper case. The trimmed string \<open>strip v\<close> is \<open>v\<close> without a
  prefix and a suffix of white space, and neither begins nor ends with white space; it is the
  result \<open>t\<close> before upper-casing followed by \<open>k\<close> semicolons, and \<open>t\<close> does not end
  with a semicolon.
\<close>

theorem normalize_header_strips_all_semicolons:
  "\<exists>a b t k. v = a @ strip v @ b \<and> list_all is_space a \<and> list_all is_space b
     \<and> (strip v = [] \<or> (\<not> is_space (hd (strip v)) \<and> \<not> is_space (last (strip v))))
     \<and> strip v = t @ replicate k (CHR '';'') \<and> (t = [] \<or> last t \<noteq> CHR '';'')
     \<and> normalize_header v = upper t"
proof -
  obtain a b where ab: "v = a @ strip v @ b" "list_all is_space a" "list_all is_space b"
    using strip_decomp by blast
  obtain k where k: "strip v = rstrip_chars '';'' (strip v) @ replicate k (CHR '';'')"
    "rstrip_chars '';'' (strip v) = [] \<or> last (rstrip_chars '';'' (strip v)) \<noteq> CHR '';''"
    using rstrip_chars_decomp[of "strip v" "CHR '';''"] by blast
  have "normalize_header v = upper (rstrip_chars '';'' (strip v))" by (simp add: normalize_header_def)
  with ab k strip_ends[of v] show ?thesis by blast
qed

theorem normalize_header_strips_all_semicolons_witness:
  "normalize_header '' Title;; '' = ''TITLE'' \<and>
   (\<exists>a b t k. '' Title;; '' = a @ strip '' Title;; '' @ b \<and> list_all is_space a \<and> list_all is_space b
     \<and> (strip '' Title;; '' = [] \<or> (\<not> is_space (hd (strip '' Title;; '')) \<and> \<not> is_space (last (strip '' Title;; ''))))
     \<and> strip '' Title;; '' = t @ replicate k (CHR '';'') \<and> (t = [] \<or> last t \<noteq> CHR '';'')
     \<and> normalize_header '' Title;; '' = upper t)"
proof -
  have n: "normalize_header '' Title;; '' = ''TITLE''" by code_simp
  show ?thesis
    using normalize_header_strips_all_semicolons [of "'' Title;; ''"] n by blast
qed

subsection \<open>Relocation (C9)\<close>

lemma free_name_result:
  "free_name dest_root name counter candidate \<notin> fst ` set dest_root \<and>
   (candidate \<notin> fst ` set dest_root \<longrightarrow> free_name dest_root name counter candidate = candidate) \<and>
   (candidate \<in> fst ` set dest_root \<longrightarrow>
      (\<exists>k\<ge>counter. free_name dest_root name counter candidate = suffixed name k \<and>
         (\<forall>j. counter \<le> j \<and> j < k \<longrightarrow> suffixed name j \<in> fst ` set dest_root)))"
proof (induction dest_root name counter candidate rule: free_name.induct)
  case (1 dest_root name counter candidate)
  show ?case
  proof (cases "candidate \<in> fst ` set dest_root")
    case False
    then show ?thesis by (simp add: free_name.simps[of dest_root name counter candidate])
  next
    case True
    let ?next = "suffixed name counter"
    let ?r = "free_name dest_root name (counter + 1) ?next"
    have unfold: "free_name dest_root name counter candidate = ?r"
      using True by (simp add: free_name.simps[of dest_root name counter candidate])
    note IH = "1.IH"[OF True]
    have fresh: "?r \<notin> fst ` set dest_root" using IH by blast
    have "\<exists>k\<ge>counter. ?r = suffixed name k \<and>
            (\<forall>j. counter \<le> j \<and> j < k \<longrightarrow> suffixed name j \<in> fst ` set dest_root)"
    proof (cases "?next \<in> fst ` set dest_root")
      case False
      with IH have "?r = suffixed name counter" by blast
      then show ?thesis by auto
    next
      case nx: True
      with IH obtain k where k: "counter + 1 \<le> k" "?r = suffixed name k"
        "\<forall>j. counter + 1 \<le> j \<and> j < k \<longrightarrow> suffixed name j \<in> fst ` set dest_root"
        by blast
      have "\<forall>j. counter \<le> j \<and> j < k \<longrightarrow> suffixed name j \<in> fst ` set dest_root"
      proof (intro allI impI)
        fix j assume j: "counter \<le> j \<and> j < k"
        show "suffixed name j \<in> fst ` set dest_root"
        proof (cases "j = counter")
          case True then show ?thesis using nx by simp
        next
          case False
          with j have "counter + 1 \<le> j \<and> j < k" by arith
          with k(3) show ?thesis by blast
        qed
      qed
      moreover have "counter \<le> k" using k(1) by arith
      ultimately show ?thesis using k(2) by blast
    qed
    with fresh unfold True show ?thesis by simp
  qed
qed

text \<open>
  C9: relocating the entry \<open>src\<close> into a destination root never overwrites an entry of the
  root. The move succeeds; the name used is not a name of the root; it is \<open>src\<close> itself when
  that is free, and otherwise \<open>src-k\<close> for the least \<open>k \<ge> 1\<close> whose name is free (every
  \<open>src-j\<close> with \<open>1 \<le> j < k\<close> is taken); every entry the root had is still there, unchanged.
\<close>

theorem move_transmittal_first_free_name:
  assumes "map_of parent src = Some entry"
  shows "\<exists>candidate.
      move_transmittal src parent dest_root
        = Inr (candidate, AList.delete src parent, dest_root @ [(candidate, entry)])
    \<and> candidate \<notin> fst ` set dest_root
    \<and> (src \<notin> fst ` set dest_root \<longrightarrow> candidate = src)
    \<and> (src \<in> fst ` set dest_root \<longrightarrow>
         (\<exists>k\<ge>1. candidate = suffixed src k \<and>
            (\<forall>j. 1 \<le> j \<and> j < k \<longrightarrow> suffixed src j \<in> fst ` set dest_root)))
    \<and> (\<forall>n \<in> fst ` set dest_root.
          map_of (dest_root @ [(candidate, entry)]) n = map_of dest_root n)"
proof -
  let ?c = "free_name dest_root src 1 src"
  have m: "move_transmittal src parent dest_root
      = Inr (?c, AList.delete src parent, dest_root @ [(?c, entry)])"
    using assms by (simp add: move_transmittal_def Let_def)
  have fresh: "?c \<notin> fst ` set dest_root"
    and free: "src \<notin> fst ` set dest_root \<longrightarrow> ?c = src"
    and taken: "src \<in> fst ` set dest_root \<longrightarrow>
         (\<exists>k\<ge>1. ?c = suffixed src k \<and>
            (\<forall>j. 1 \<le> j \<and> j < k \<longrightarrow> suffixed src j \<in> fst ` set dest_root))"
    using free_name_result[of dest_root src 1 src] by blast+
  have kept: "\<forall>n \<in> fst ` set dest_root. map_of (dest_root @ [(?c, entry)]) n = map_of dest_root n"
  proof
    fix n assume "n \<in> fst ` set dest_root"
    then have "map_of dest_root n \<noteq> None" by (simp add: map_of_eq_None_iff)
    then show "map_of (dest_root @ [(?c, entry)]) n = map_of dest_root n"
      by (auto simp: map_add_def split: option.splits)
  qed
  from m fresh free taken kept show ?thesis by blast
qed

theorem move_transmittal_first_free_name_witness:
  "map_of [(''X'', Dir [])] ''X'' = Some (Dir [])
   \<and> move_transmittal ''X'' [(''X'', Dir [])] [] = Inr (''X'', [], [(''X'', Dir [])])
   \<and> move_transmittal ''X'' [(''X'', Dir [])] [(''X'', Dir [])]
       = Inr (''X-1'', [], [(''X'', Dir []), (''X-1'', Dir [])])
   \<and> move_transmittal ''X'' [(''X'', Dir [])] [(''X'', Dir []), (''X-1'', Dir [])]
       = Inr (''X-2'', [], [(''X'', Dir []), (''X-1'', Dir []), (''X-2'', Dir [])])
   \<and> (\<exists>candidate k. candidate \<notin> fst ` set [(''X'', Dir []), (''X-1'', Dir [])]
        \<and> candidate = suffixed ''X'' k
        \<and> move_transmittal ''X'' [(''X'', Dir [])] [(''X'', Dir []), (''X-1'', Dir [])]
            = Inr (candidate, [], [(''X'', Dir []), (''X-1'', Dir []), (candidate, Dir [])]))"
proof -
  have h: "map_of [(''X'', Dir [])] ''X'' = Some (Dir [])" by simp
  have a: "move_transmittal ''X'' [(''X'', Dir [])] [] = Inr (''X'', [], [(''X'', Dir [])])"
    by code_simp
  have b: "move_transmittal ''X'' [(''X'', Dir [])] [(''X'', Dir [])]
       = Inr (''X-1'', [], [(''X'', Dir []), (''X-1'', Dir [])])"
    by code_simp
  have c: "move_transmittal ''X'' [(''X'', Dir [])] [(''X'', Dir []), (''X-1'', Dir [])]
       = Inr (''X-2'', [], [(''X'', Dir []), (''X-1'', Dir []), (''X-2'', Dir [])])"
    by code_simp
  have x: "''X'' \<in> fst ` set [(''X'', Dir []), (''X-1'', Dir [])]" by simp
  have d: "AList.delete ''X'' [(''X'', Dir [])] = []" by simp
  from move_transmittal_first_free_name [OF h, of "[(''X'', Dir []), (''X-1'', Dir [])]"] x
  obtain candidate k where
    "move_transmittal ''X'' [(''X'', Dir [])] [(''X'', Dir []), (''X-1'', Dir [])]
       = Inr (candidate, AList.delete ''X'' [(''X'', Dir [])],
              [(''X'', Dir []), (''X-1'', Dir [])] @ [(candidate, Dir [])])"
    "candidate \<notin> fst ` set [(''X'', Dir []), (''X-1'', Dir [])]"
    "candidate = suffixed ''X'' k"
    by blast
  then have "\<exists>candidate k. candidate \<notin> fst ` set [(''X'', Dir []), (''X-1'', Dir [])]
        \<and> candidate = suffixed ''X'' k
        \<and> move_transmittal ''X'' [(''X'', Dir [])] [(''X'', Dir []), (''X-1'', Dir [])]
            = Inr (candidate, [], [(''X'', Dir []), (''X-1'', Dir []), (candidate, Dir [])])"
    unfolding d by auto
  with h a b c show ?thesis by blast
qed

subsection \<open>Sheets and header maps\<close>

lemma map_err_length: "map_err f xs = Inr ys \<Longrightarrow> length ys = length xs"
  by (induction xs arbitrary: ys) (auto split: sum.splits)

lemma max_column_ge: "r \<in> set sh \<Longrightarrow> length r \<le> max_column sh"
  by (induction sh) (auto simp: max_column_def)

lemma length_first_row: "length (first_row sh) = max_column sh"
proof (cases sh)
  case Nil
  then show ?thesis by (simp add: first_row_def pad_row_def)
next
  case (Cons r rs)
  then have "length r \<le> max_column sh" by (simp add: max_column_ge)
  with Cons show ?thesis by (simp add: first_row_def pad_row_def)
qed

lemma length_data_row: "row \<in> set (data_rows sh) \<Longrightarrow> length row = max_column sh"
proof -
  assume "row \<in> set (data_rows sh)"
  then obtain r where r: "r \<in> set (tl sh)" "row = pad_row (max_column sh) r"
    by (auto simp: data_rows_def)
  then have "r \<in> set sh" by (metis list.set_sel(2) tl_Nil)
  then have "length r \<le> max_column sh" by (rule max_column_ge)
  with r show ?thesis by (simp add: pad_row_def)
qed

lemma header_fold_absent:
  "k \<notin> set hs \<Longrightarrow>
   map_of (foldl (\<lambda>m (idx, h). AList.update h idx m) m0 (enumerate n hs)) k = map_of m0 k"
  by (induction hs arbitrary: n m0) (auto simp: update_conv')

lemma header_fold_present:
  "k \<in> set hs \<Longrightarrow>
   \<exists>i. map_of (foldl (\<lambda>m (idx, h). AList.update h idx m) m0 (enumerate n hs)) k = Some i
      \<and> n \<le> i \<and> i < n + length hs \<and> hs ! (i - n) = k"
proof (induction hs arbitrary: n m0)
  case Nil
  then show ?case by simp
next
  case (Cons h hs)
  show ?case
  proof (cases "k \<in> set hs")
    case True
    from Cons.IH[OF True, of "AList.update h n m0" "Suc n"]
    obtain i where i: "map_of (foldl (\<lambda>m (idx, h). AList.update h idx m) (AList.update h n m0)
        (enumerate (Suc n) hs)) k = Some i" "Suc n \<le> i" "i < Suc n + length hs" "hs ! (i - Suc n) = k"
      by blast
    then have "(h # hs) ! (i - n) = k" by (simp add: nth_Cons')
    with i show ?thesis by auto
  next
    case False
    with Cons.prems have hk: "h = k" by simp
    have "map_of (foldl (\<lambda>m (idx, h). AList.update h idx m) (AList.update h n m0)
        (enumerate (Suc n) hs)) k = map_of (AList.update h n m0) k"
      using False by (rule header_fold_absent)
    also have "\<dots> = Some n" using hk by (simp add: update_conv')
    finally show ?thesis using hk by simp
  qed
qed

lemma header_map_of_Some:
  "map_of (header_map_of hs) k = Some i \<Longrightarrow> i < length hs \<and> hs ! i = k"
proof -
  assume a: "map_of (header_map_of hs) k = Some i"
  have "k \<in> set hs"
  proof (rule ccontr)
    assume "k \<notin> set hs"
    then have "map_of (header_map_of hs) k = map_of [] k"
      unfolding header_map_of_def by (rule header_fold_absent)
    with a show False by simp
  qed
  from header_fold_present[OF this, of "[]" 0] a show ?thesis
    by (auto simp: header_map_of_def)
qed

lemma header_map_of_dom:
  "(\<exists>i. map_of (header_map_of hs) k = Some i) \<longleftrightarrow> k \<in> set hs"
proof
  assume "\<exists>i. map_of (header_map_of hs) k = Some i"
  then obtain i where "map_of (header_map_of hs) k = Some i" by blast
  then have "i < length hs \<and> hs ! i = k" by (rule header_map_of_Some)
  then show "k \<in> set hs" by auto
next
  assume "k \<in> set hs"
  from header_fold_present[OF this, of "[]" 0] show "\<exists>i. map_of (header_map_of hs) k = Some i"
    by (auto simp: header_map_of_def)
qed

subsection \<open>The Version History Index (C10)\<close>

lemma load_rows_filter:
  "load_rows di vi rows seen = load_rows di vi (filter (\<lambda>row. \<not> skipped_row di vi row) rows) seen"
proof (induction rows arbitrary: seen)
  case Nil
  show ?case by simp
next
  case (Cons row rows)
  show ?case
  proof (cases "skipped_row di vi row")
    case True
    then have "load_rows di vi (row # rows) seen = load_rows di vi rows seen"
      by (auto simp: skipped_row_def cell_at_def)
    with True Cons.IH show ?thesis by simp
  next
    case False
    then have "load_rows di vi (filter (\<lambda>row. \<not> skipped_row di vi row) (row # rows)) seen
      = load_rows di vi (row # filter (\<lambda>row. \<not> skipped_row di vi row) rows) seen" by simp
    also have "\<dots> = load_rows di vi (row # rows) seen"
      using Cons.IH by (simp split: sum.splits)
    finally show ?thesis by simp
  qed
qed

lemma load_rows_all_skipped:
  "\<forall>row\<in>set rows. skipped_row di vi row \<Longrightarrow> load_rows di vi rows seen = Inr seen"
proof -
  assume "\<forall>row\<in>set rows. skipped_row di vi row"
  then have "filter (\<lambda>row. \<not> skipped_row di vi row) rows = []" by (simp add: filter_empty_conv)
  then show ?thesis using load_rows_filter[of di vi rows seen] by simp
qed

lemma load_rows_index:
  "load_rows di vi rows seen = Inr s \<Longrightarrow>
   s = seen \<union> {p. \<exists>row\<in>set rows. \<not> skipped_row di vi row \<and> di < length row \<and> vi < length row
          \<and> normalize_doc_number (row ! di) = Inr (fst p)
          \<and> (\<exists>nv. normalize_version (row ! vi) = Inr nv \<and> snd p = lower nv)}"
proof (induction rows arbitrary: seen)
  case Nil
  then show ?case by simp
next
  case (Cons row rows)
  let ?S = "\<lambda>rows. {p. \<exists>row\<in>set rows. \<not> skipped_row di vi row \<and> di < length row \<and> vi < length row
          \<and> normalize_doc_number (row ! di) = Inr (fst p)
          \<and> (\<exists>nv. normalize_version (row ! vi) = Inr nv \<and> snd p = lower nv)}"
  from Cons.prems have di: "di < length row" and vi: "vi < length row"
    by (auto simp: cell_at_def split: if_splits)
  show ?case
  proof (cases "skipped_row di vi row")
    case True
    then have "load_rows di vi rows seen = Inr s"
      using Cons.prems by (auto simp: skipped_row_def cell_at_def)
    then have "s = seen \<union> ?S rows" by (rule Cons.IH)
    moreover have "?S (row # rows) = ?S rows" using True by auto
    ultimately show ?thesis by simp
  next
    case False
    then have ne: "\<not> (is_empty_cell (row ! di) \<or> is_empty_cell (row ! vi))"
      using di vi by (simp add: skipped_row_def)
    from Cons.prems di vi ne obtain d v where d: "normalize_doc_number (row ! di) = Inr d"
      and v: "normalize_version (row ! vi) = Inr v"
      and r: "load_rows di vi rows (insert (d, lower v) seen) = Inr s"
      by (auto simp: cell_at_def split: sum.splits)
    from Cons.IH[OF r] have s: "s = insert (d, lower v) seen \<union> ?S rows" .
    have "?S (row # rows) = insert (d, lower v) (?S rows)"
      using False di vi d v by (auto simp: prod_eq_iff)
    with s show ?thesis by auto
  qed
qed

text \<open>
  C10: let the header of the history table have its document-identifier column at index \<open>di\<close>
  and its version column at index \<open>vi\<close>. Both indices lie inside every data row. Building the
  Version History Index gives the same result, error or set, as building it from the table
  without the rows whose document cell or version cell is empty or missing; a table made only
  of such rows gives the empty index without any error; and a pair is in the index only if a
  row with both cells present yields it. So a submission that matches only a row with an empty
  cell is not in the index and is not detected as a duplicate.
\<close>

theorem load_existing_versions_skips_empty_cells:
  assumes "map_err (\<lambda>c. normalize_header_cell (or_empty c)) (first_row sh) = Inr headers"
      and "map_of (header_map_of headers) ''DOCUMENT NUMBER 1'' = Some di"
      and "map_of (header_map_of headers) ''VERSION'' = Some vi"
  shows "(\<forall>row\<in>set (data_rows sh). di < length row \<and> vi < length row)
    \<and> load_existing_versions (Some sh)
        = load_rows di vi (filter (\<lambda>row. \<not> skipped_row di vi row) (data_rows sh)) {}
    \<and> ((\<forall>row\<in>set (data_rows sh). skipped_row di vi row) \<longrightarrow> load_existing_versions (Some sh) = Inr {})
    \<and> (\<forall>seen. load_existing_versions (Some sh) = Inr seen \<longrightarrow>
          seen = {p. \<exists>row\<in>set (data_rows sh). \<not> skipped_row di vi row
                  \<and> normalize_doc_number (row ! di) = Inr (fst p)
                  \<and> (\<exists>nv. normalize_version (row ! vi) = Inr nv \<and> snd p = lower nv)})"
proof -
  have len: "length headers = max_column sh"
    using map_err_length[OF assms(1)] by (simp add: length_first_row)
  have "di < length headers" "vi < length headers"
    using header_map_of_Some[OF assms(2)] header_map_of_Some[OF assms(3)] by simp_all
  then have range: "\<forall>row\<in>set (data_rows sh). di < length row \<and> vi < length row"
    using len by (simp add: length_data_row)
  have eq: "load_existing_versions (Some sh) = load_rows di vi (data_rows sh) {}"
    using assms by (simp add: load_existing_versions_def)
  have filt: "load_existing_versions (Some sh)
        = load_rows di vi (filter (\<lambda>row. \<not> skipped_row di vi row) (data_rows sh)) {}"
    unfolding eq by (rule load_rows_filter)
  have empty: "(\<forall>row\<in>set (data_rows sh). skipped_row di vi row) \<longrightarrow> load_existing_versions (Some sh) = Inr {}"
    unfolding eq by (simp add: load_rows_all_skipped)
  have index: "\<forall>seen. load_existing_versions (Some sh) = Inr seen \<longrightarrow>
          seen = {p. \<exists>row\<in>set (data_rows sh). \<not> skipped_row di vi row
                  \<and> normalize_doc_number (row ! di) = Inr (fst p)
                  \<and> (\<exists>nv. normalize_version (row ! vi) = Inr nv \<and> snd p = lower nv)}"
  proof (intro allI impI)
    fix seen assume "load_existing_versions (Some sh) = Inr seen"
    then have "load_rows di vi (data_rows sh) {} = Inr seen" by (simp add: eq)
    from load_rows_index[OF this] range
    show "seen = {p. \<exists>row\<in>set (data_rows sh). \<not> skipped_row di vi row
                  \<and> normalize_doc_number (row ! di) = Inr (fst p)
                  \<and> (\<exists>nv. normalize_version (row ! vi) = Inr nv \<and> snd p = lower nv)}"
      by auto
  qed
  from range filt empty index show ?thesis by blast
qed

theorem load_existing_versions_skips_empty_cells_witness:
  "map_err (\<lambda>c. normalize_header_cell (or_empty c)) (first_row ex_history) = Inr DATABASE_HEADERS
   \<and> map_of (header_map_of DATABASE_HEADERS) ''DOCUMENT NUMBER 1'' = Some 4
   \<and> map_of (header_map_of DATABASE_HEADERS) ''VERSION'' = Some 7
   \<and> filter (\<lambda>row. \<not> skipped_row 4 7 row) (data_rows ex_history) = [ex_history ! 1]
   \<and> load_existing_versions (Some ex_history) = load_rows 4 7 [ex_history ! 1] {}
   \<and> load_existing_versions (Some ex_history) = Inr {(''spec-100'', ''b'')}
   \<and> version_key (ex_raw ''SPEC-300'' ''Spec'' ''A'') \<notin> {(''spec-100'', ''b'')}
   \<and> normalized_doc (projr (validate_row no_parse {(''spec-100'', ''b'')} [] ''T.xlsx''
        (ex_raw ''SPEC-300'' ''Spec'' ''A''))) = ''spec-300''"
proof -
  have h: "map_err (\<lambda>c. normalize_header_cell (or_empty c)) (first_row ex_history) = Inr DATABASE_HEADERS"
    by code_simp
  have d: "map_of (header_map_of DATABASE_HEADERS) ''DOCUMENT NUMBER 1'' = Some 4" by code_simp
  have v: "map_of (header_map_of DATABASE_HEADERS) ''VERSION'' = Some 7" by code_simp
  have f: "filter (\<lambda>row. \<not> skipped_row 4 7 row) (data_rows ex_history) = [ex_history ! 1]"
    by code_simp
  have l: "load_existing_versions (Some ex_history) = Inr {(''spec-100'', ''b'')}" by code_simp
  have k: "version_key (ex_raw ''SPEC-300'' ''Spec'' ''A'') \<notin> {(''spec-100'', ''b'')}" by code_simp
  have r: "normalized_doc (projr (validate_row no_parse {(''spec-100'', ''b'')} [] ''T.xlsx''
        (ex_raw ''SPEC-300'' ''Spec'' ''A''))) = ''spec-300''" by code_simp
  from load_existing_versions_skips_empty_cells [OF h d v]
  have "load_existing_versions (Some ex_history)
        = load_rows 4 7 (filter (\<lambda>row. \<not> skipped_row 4 7 row) (data_rows ex_history)) {}"
    by blast
  then have "load_existing_versions (Some ex_history) = load_rows 4 7 [ex_history ! 1] {}"
    by (simp only: f)
  with h d v f l k r show ?thesis by blast
qed

subsection \<open>The duplicate check (C3)\<close>

lemma not_blank_index:
  "\<not> is_blank (dict_get d k) \<Longrightarrow> dict_index d k = Inr (dict_get d k)"
  by (auto simp: is_blank_def dict_get_def dict_index_def split: option.splits)

lemma required_fields_ok:
  "(\<forall>field\<in>set REQUIRED_FIELDS. \<not> is_blank (dict_get raw_row field)) \<longleftrightarrow>
   find (\<lambda>field. is_blank (dict_get raw_row field)) REQUIRED_FIELDS = None"
  by (auto simp: find_None_iff)

lemma doc_required: "''DOCUMENT NUMBER 1'' \<in> set REQUIRED_FIELDS"
  by (simp add: REQUIRED_FIELDS_def)

lemma version_required: "''VERSION'' \<in> set REQUIRED_FIELDS"
  by (simp add: REQUIRED_FIELDS_def)

lemma validate_row_after_required:
  assumes "\<forall>field\<in>set REQUIRED_FIELDS. \<not> is_blank (dict_get raw_row field)"
  shows "validate_row parse existing_versions transmittal_dir log_file raw_row =
     (if version_key raw_row \<in> existing_versions then Inl DuplicateVersion
      else
        (case dict_index raw_row ''DATE'' of
           Inl e \<Rightarrow> Inl e
         | Inr date_val \<Rightarrow>
        (case coerce_date parse date_val of
           Inl e \<Rightarrow> Inl e
         | Inr d \<Rightarrow>
             Inr \<lparr>raw = AList.update ''DATE'' d raw_row,
                  normalized_doc = fst (version_key raw_row),
                  normalized_version = strip (py_str (dict_get raw_row ''VERSION'')),
                  filenames = find_matching_files transmittal_dir (fst (version_key raw_row)) log_file\<rparr>)))"
proof -
  have f: "find (\<lambda>field. is_blank (dict_get raw_row field)) REQUIRED_FIELDS = None"
    using assms required_fields_ok[of raw_row] by blast
  have d: "\<not> is_blank (dict_get raw_row ''DOCUMENT NUMBER 1'')"
    using assms doc_required by blast
  have v: "\<not> is_blank (dict_get raw_row ''VERSION'')"
    using assms version_required by blast
  show ?thesis
    unfolding validate_row_def f
    by (simp add: not_blank_index[OF d] not_blank_index[OF v] normalize_doc_number_def
        normalize_version_def d v version_key_def cong: sum.case_cong)
qed

text \<open>
  C3, as stated, fails: a row whose pair is in the index but whose \<open>TITLE\<close> is empty fails
  with the missing-required-field error, since the required fields are checked first. Here the
  history holds (\<open>spec-100\<close>, \<open>b\<close>) and the row submits \<open>SPEC-100\<close>, \<open>B\<close> with an empty title.
\<close>

theorem validate_row_duplicate_counterexample:
  "load_existing_versions (Some ex_history) = Inr {(''spec-100'', ''b'')}
   \<and> version_key (ex_raw ''SPEC-100'' [] ''B'') \<in> {(''spec-100'', ''b'')}
   \<and> validate_row no_parse {(''spec-100'', ''b'')} [] ''T.xlsx'' (ex_raw ''SPEC-100'' [] ''B'')
       = Inl (MissingRequiredField ''TITLE'')
   \<and> validate_row no_parse {(''spec-100'', ''b'')} [] ''T.xlsx'' (ex_raw ''SPEC-100'' [] ''B'')
       \<noteq> Inl DuplicateVersion"
  by code_simp

text \<open>
  C3, amended: for every manifest row, if the pair (trimmed lower-cased document identifier,
  trimmed lower-cased version) is a member of the Version History Index, the row fails
  validation: with the \<open>DuplicateVersion\<close> error when all its required fields are non-empty,
  and with the missing-required-field error otherwise. The comparison is case-insensitive on
  both components.
\<close>

theorem validate_row_duplicate_version:
  assumes "version_key raw_row \<in> existing_versions"
  shows "\<exists>e. validate_row parse existing_versions transmittal_dir log_file raw_row = Inl e
    \<and> ((\<forall>field\<in>set REQUIRED_FIELDS. \<not> is_blank (dict_get raw_row field)) \<longrightarrow> e = DuplicateVersion)
    \<and> (\<not> (\<forall>field\<in>set REQUIRED_FIELDS. \<not> is_blank (dict_get raw_row field)) \<longrightarrow>
          (\<exists>field\<in>set REQUIRED_FIELDS. e = MissingRequiredField field))"
proof (cases "\<forall>field\<in>set REQUIRED_FIELDS. \<not> is_blank (dict_get raw_row field)")
  case True
  then have "validate_row parse existing_versions transmittal_dir log_file raw_row = Inl DuplicateVersion"
    using assms by (simp add: validate_row_after_required)
  with True show ?thesis by blast
next
  case False
  then have "find (\<lambda>field. is_blank (dict_get raw_row field)) REQUIRED_FIELDS \<noteq> None"
    using required_fields_ok[of raw_row] by blast
  then obtain field where f: "find (\<lambda>field. is_blank (dict_get raw_row field)) REQUIRED_FIELDS = Some field"
    by blast
  then have "field \<in> set REQUIRED_FIELDS" by (auto simp: find_Some_iff)
  moreover have "validate_row parse existing_versions transmittal_dir log_file raw_row
      = Inl (MissingRequiredField field)"
    unfolding validate_row_def f by simp
  ultimately show ?thesis using False by blast
qed

theorem validate_row_duplicate_version_witness:
  "version_key (ex_raw ''SPEC-100'' ''Spec'' ''B'') = (''spec-100'', ''b'')
   \<and> load_existing_versions (Some ex_history) = Inr {(''spec-100'', ''b'')}
   \<and> list_all (\<lambda>field. \<not> is_blank (dict_get (ex_raw ''SPEC-100'' ''Spec'' ''B'') field)) REQUIRED_FIELDS
   \<and> validate_row no_parse {(''spec-100'', ''b'')} [] ''T.xlsx'' (ex_raw ''SPEC-100'' ''Spec'' ''B'')
       = Inl DuplicateVersion"
proof -
  have k: "version_key (ex_raw ''SPEC-100'' ''Spec'' ''B'') = (''spec-100'', ''b'')" by code_simp
  have l: "load_existing_versions (Some ex_history) = Inr {(''spec-100'', ''b'')}" by code_simp
  have r: "list_all (\<lambda>field. \<not> is_blank (dict_get (ex_raw ''SPEC-100'' ''Spec'' ''B'') field)) REQUIRED_FIELDS"
    by code_simp
  have m: "version_key (ex_raw ''SPEC-100'' ''Spec'' ''B'') \<in> {(''spec-100'', ''b'')}"
    by (simp add: k)
  from validate_row_duplicate_version [OF m, of no_parse "[]" "''T.xlsx''"] r
  have "validate_row no_parse {(''spec-100'', ''b'')} [] ''T.xlsx'' (ex_raw ''SPEC-100'' ''Spec'' ''B'')
       = Inl DuplicateVersion"
    by (auto simp: list_all_iff)
  with k l r show ?thesis by blast
qed

subsection \<open>The index is fixed during validation (C4)\<close>

lemma validate_rows_eq:
  "validate_rows parse ev tdir log_file raw_rows idx processed_rows errors =
     (processed_rows @ List.map_filter (\<lambda>raw_row. valid_of (validate_row parse ev tdir log_file raw_row)) raw_rows,
      errors @ List.map_filter error_of
        (map (\<lambda>(i, raw_row). (i, validate_row parse ev tdir log_file raw_row)) (enumerate idx raw_rows)))"
proof (induction raw_rows arbitrary: idx processed_rows errors)
  case Nil
  show ?case by simp
next
  case (Cons raw_row raw_rows)
  show ?case
    by (cases "validate_row parse ev tdir log_file raw_row")
       (simp_all add: Cons.IH valid_of_def error_of_def)
qed

lemma validate_row_duplicate_only:
  assumes "validate_row parse ev tdir log_file raw_row = Inl DuplicateVersion"
  shows "version_key raw_row \<in> ev"
proof -
  have ok: "\<forall>field\<in>set REQUIRED_FIELDS. \<not> is_blank (dict_get raw_row field)"
  proof (rule ccontr)
    assume "\<not> ?thesis"
    then have "find (\<lambda>field. is_blank (dict_get raw_row field)) REQUIRED_FIELDS \<noteq> None"
      using required_fields_ok[of raw_row] by blast
    then obtain field where "find (\<lambda>field. is_blank (dict_get raw_row field)) REQUIRED_FIELDS = Some field"
      by blast
    then have "validate_row parse ev tdir log_file raw_row = Inl (MissingRequiredField field)"
      unfolding validate_row_def by simp
    with assms show False by simp
  qed
  show ?thesis
  proof (rule ccontr)
    assume "version_key raw_row \<notin> ev"
    with assms show False
      unfolding validate_row_after_required[OF ok]
      by (auto simp: dict_index_def coerce_date_def Let_def split: option.splits sum.splits cell.splits if_splits)
  qed
qed

lemma in_set_map_filter:
  "y \<in> set (List.map_filter f xs) \<longleftrightarrow> (\<exists>x\<in>set xs. f x = Some y)"
  by (induction xs) (auto split: option.splits)

text \<open>
  C4: the validation loop judges every manifest row against one and the same index \<open>ev\<close>:
  its two result lists are the valid rows and the numbered errors of the rows taken one by one.
  Consequently a row that is valid on its own is valid twice when the manifest carries it
  twice, and a \<open>DuplicateVersion\<close> error is recorded only for a row whose pair is in \<open>ev\<close>.
  \<open>process_transmittal\<close> builds \<open>ev\<close> once, from the history table as it is before the
  manifest is read, and hands it to the validation.
\<close>

theorem validate_rows_index_fixed:
  "validate_rows parse ev tdir log_file raw_rows 2 [] [] =
     (List.map_filter (\<lambda>raw_row. valid_of (validate_row parse ev tdir log_file raw_row)) raw_rows,
      List.map_filter error_of
        (map (\<lambda>(i, raw_row). (i, validate_row parse ev tdir log_file raw_row)) (enumerate 2 raw_rows)))
   \<and> (\<forall>row. validate_row parse ev tdir log_file raw_row = Inr row \<longrightarrow>
         validate_rows parse ev tdir log_file [raw_row, raw_row] 2 [] [] = ([row, row], []))
   \<and> (\<forall>i. (i, DuplicateVersion) \<in> set (snd (validate_rows parse ev tdir log_file raw_rows 2 [] [])) \<longrightarrow>
         2 \<le> i \<and> i < 2 + length raw_rows \<and> version_key (raw_rows ! (i - 2)) \<in> ev)
   \<and> (\<forall>st name log_node.
         map_of (entries_of (pending st) name) (name @ ''.xlsx'') = Some log_node \<longrightarrow>
         load_existing_versions (database st) = Inr ev \<longrightarrow>
         process_transmittal parse st name =
           (case validate_transmittal parse ev (entries_of (pending st) name) (name @ ''.xlsx'') log_node of
              Inl exc \<Rightarrow> reject_transmittal st name
            | Inr processed_rows \<Rightarrow> accept_transmittal st name processed_rows))"
proof (intro conjI allI impI)
  show "validate_rows parse ev tdir log_file raw_rows 2 [] [] =
     (List.map_filter (\<lambda>raw_row. valid_of (validate_row parse ev tdir log_file raw_row)) raw_rows,
      List.map_filter error_of
        (map (\<lambda>(i, raw_row). (i, validate_row parse ev tdir log_file raw_row)) (enumerate 2 raw_rows)))"
    by (simp add: validate_rows_eq)
next
  fix row assume "validate_row parse ev tdir log_file raw_row = Inr row"
  then show "validate_rows parse ev tdir log_file [raw_row, raw_row] 2 [] [] = ([row, row], [])"
    by simp
next
  fix i
  assume a: "(i, DuplicateVersion) \<in> set (snd (validate_rows parse ev tdir log_file raw_rows 2 [] []))"
  then obtain j raw_row where j: "(j, raw_row) \<in> set (enumerate 2 raw_rows)"
    and e: "error_of (j, validate_row parse ev tdir log_file raw_row) = Some (i, DuplicateVersion)"
    by (auto simp: validate_rows_eq in_set_map_filter)
  from e have ij: "j = i" and d: "validate_row parse ev tdir log_file raw_row = Inl DuplicateVersion"
    by (auto simp: error_of_def split: sum.splits)
  from j ij have r: "2 \<le> i" "i < 2 + length raw_rows" "raw_rows ! (i - 2) = raw_row"
    by (auto simp: in_set_enumerate_eq)
  from d have "version_key raw_row \<in> ev" by (rule validate_row_duplicate_only)
  with r show "2 \<le> i" "i < 2 + length raw_rows" "version_key (raw_rows ! (i - 2)) \<in> ev"
    by simp_all
next
  fix st :: project and name log_node
  assume "map_of (entries_of (pending st) name) (name @ ''.xlsx'') = Some log_node"
    and "load_existing_versions (database st) = Inr ev"
  then show "process_transmittal parse st name =
           (case validate_transmittal parse ev (entries_of (pending st) name) (name @ ''.xlsx'') log_node of
              Inl exc \<Rightarrow> reject_transmittal st name
            | Inr processed_rows \<Rightarrow> accept_transmittal st name processed_rows)"
    by (simp add: process_transmittal_def Let_def)
qed

theorem validate_rows_index_fixed_witness:
  "validate_row no_parse {} [] ''T1.xlsx'' (ex_raw ''SPEC-100'' ''Spec'' ''A'')
     = Inr \<lparr>raw = ex_raw ''SPEC-100'' ''Spec'' ''A'', normalized_doc = ''spec-100'',
            normalized_version = ''A'', filenames = []\<rparr>
   \<and> map normalized_doc (fst (validate_rows no_parse {} [] ''T1.xlsx''
        [ex_raw ''SPEC-100'' ''Spec'' ''A'', ex_raw ''SPEC-100'' ''Spec'' ''A''] 2 [] []))
       = [''spec-100'', ''spec-100'']
   \<and> snd (validate_rows no_parse {} [] ''T1.xlsx''
        [ex_raw ''SPEC-100'' ''Spec'' ''A'', ex_raw ''SPEC-100'' ''Spec'' ''A''] 2 [] []) = []
   \<and> map (\<lambda>row. (row ! 4, row ! 7)) (tl (the (database (projr (process_transmittal no_parse
        (ex_project None [ex_transmittal ''T1''
           [ex_row ''SPEC-100'' ''Spec'' ''A'', ex_row ''SPEC-100'' ''Spec'' ''A''] []]) ''T1'')))))
       = [(CStr ''SPEC-100'', CStr ''A''), (CStr ''SPEC-100'', CStr ''A'')]"
proof -
  have v: "validate_row no_parse {} [] ''T1.xlsx'' (ex_raw ''SPEC-100'' ''Spec'' ''A'')
     = Inr \<lparr>raw = ex_raw ''SPEC-100'' ''Spec'' ''A'', normalized_doc = ''spec-100'',
            normalized_version = ''A'', filenames = []\<rparr>"
    by code_simp
  have p: "map (\<lambda>row. (row ! 4, row ! 7)) (tl (the (database (projr (process_transmittal no_parse
        (ex_project None [ex_transmittal ''T1''
           [ex_row ''SPEC-100'' ''Spec'' ''A'', ex_row ''SPEC-100'' ''Spec'' ''A''] []]) ''T1'')))))
       = [(CStr ''SPEC-100'', CStr ''A''), (CStr ''SPEC-100'', CStr ''A'')]"
    by code_simp
  from validate_rows_index_fixed [of no_parse "{}" "[]" "''T1.xlsx''" "[]"
      "ex_raw ''SPEC-100'' ''Spec'' ''A''"] v
  have "validate_rows no_parse {} [] ''T1.xlsx''
        [ex_raw ''SPEC-100'' ''Spec'' ''A'', ex_raw ''SPEC-100'' ''Spec'' ''A''] 2 [] []
      = ([\<lparr>raw = ex_raw ''SPEC-100'' ''Spec'' ''A'', normalized_doc = ''spec-100'',
            normalized_version = ''A'', filenames = []\<rparr>,
          \<lparr>raw = ex_raw ''SPEC-100'' ''Spec'' ''A'', normalized_doc = ''spec-100'',
            normalized_version = ''A'', filenames = []\<rparr>], [])"
    by blast
  with v p show ?thesis by simp
qed

subsection \<open>Header checks of the persistent tables (C5)\<close>

lemma schema_normalized:
  "map normalize_header EXPECTED_HEADERS = EXPECTED_HEADERS"
  "map normalize_header DATABASE_HEADERS = DATABASE_HEADERS"
  by code_simp+

lemma load_rows_no_header_mismatch: "load_rows di vi rows seen \<noteq> Inl HeaderMismatch"
proof (induction rows arbitrary: seen)
  case Nil
  show ?case by simp
next
  case (Cons row rows)
  show ?case
    using Cons.IH
    by (auto simp: cell_at_def normalize_doc_number_def normalize_version_def split: sum.splits)
qed

text \<open>
  C5, as stated, fails in its last part: reading the history table to build the Version
  History Index does not enforce exact header equality. A history table whose header is only
  \<open>Version\<close>, \<open>Document Number 1\<close> is read into an index, while opening the same table for
  appending fails with the header-mismatch error.
\<close>

theorem load_existing_versions_header_counterexample:
  "map_err (\<lambda>c. normalize_header_cell (or_empty c)) (first_row ex_short_history)
      = Inr [''VERSION'', ''DOCUMENT NUMBER 1'']
   \<and> [''VERSION'', ''DOCUMENT NUMBER 1''] \<noteq> map normalize_header DATABASE_HEADERS
   \<and> load_existing_versions (Some ex_short_history) = Inr {(''spec-100'', ''b'')}
   \<and> ensure_workbook (Some ex_short_history) DATABASE_HEADERS = Inl HeaderMismatch"
  by code_simp

text \<open>
  C5, amended: every opening of an existing persistent table by \<open>ensure_workbook\<close> (as
  \<open>append_to_database\<close> does for the History Table and \<open>update_document_list\<close> for the
  Latest-Version Index) checks the stored header row, after normalisation, for exact equality
  against the fixed expected header list for that table kind, and any mismatch fails: with the
  header-mismatch error when the header cells are text or empty, and with the error of the
  normalisation when a header cell is neither. Reading the history table to build the Version
  History Index fails with the header-mismatch error exactly when the \<open>DOCUMENT NUMBER 1\<close> or
  the \<open>VERSION\<close> column is missing from the normalised header.
\<close>

theorem persistent_table_header_checks:
  "(\<forall>e. map_err (\<lambda>c. normalize_header_cell (or_empty c)) (first_row sh) = Inl e \<longrightarrow>
       ensure_workbook (Some sh) headers = Inl e \<and> load_existing_versions (Some sh) = Inl e)
   \<and> (\<forall>existing. map_err (\<lambda>c. normalize_header_cell (or_empty c)) (first_row sh) = Inr existing \<longrightarrow>
         (existing = map normalize_header headers \<longrightarrow> ensure_workbook (Some sh) headers = Inr sh)
       \<and> (existing \<noteq> map normalize_header headers \<longrightarrow> ensure_workbook (Some sh) headers = Inl HeaderMismatch)
       \<and> (existing \<noteq> DATABASE_HEADERS \<longrightarrow> append_to_database (Some sh) rows = Inl HeaderMismatch)
       \<and> (existing \<noteq> EXPECTED_HEADERS \<longrightarrow> update_document_list (Some sh) rows = Inl HeaderMismatch)
       \<and> (load_existing_versions (Some sh) = Inl HeaderMismatch \<longleftrightarrow>
            \<not> (''DOCUMENT NUMBER 1'' \<in> set existing \<and> ''VERSION'' \<in> set existing)))"
proof (intro conjI allI impI)
  fix e assume "map_err (\<lambda>c. normalize_header_cell (or_empty c)) (first_row sh) = Inl e"
  then show "ensure_workbook (Some sh) headers = Inl e" "load_existing_versions (Some sh) = Inl e"
    by (simp_all add: ensure_workbook_def load_existing_versions_def)
next
  fix existing
  assume h: "map_err (\<lambda>c. normalize_header_cell (or_empty c)) (first_row sh) = Inr existing"
  {
    assume "existing = map normalize_header headers"
    with h show "ensure_workbook (Some sh) headers = Inr sh" by (simp add: ensure_workbook_def)
  }
  {
    assume "existing \<noteq> map normalize_header headers"
    with h show "ensure_workbook (Some sh) headers = Inl HeaderMismatch"
      by (simp add: ensure_workbook_def)
  }
  {
    assume "existing \<noteq> DATABASE_HEADERS"
    with h show "append_to_database (Some sh) rows = Inl HeaderMismatch"
      by (simp add: append_to_database_def ensure_workbook_def schema_normalized)
  }
  {
    assume "existing \<noteq> EXPECTED_HEADERS"
    with h show "update_document_list (Some sh) rows = Inl HeaderMismatch"
      by (simp add: update_document_list_def ensure_workbook_def schema_normalized)
  }
  show "load_existing_versions (Some sh) = Inl HeaderMismatch \<longleftrightarrow>
            \<not> (''DOCUMENT NUMBER 1'' \<in> set existing \<and> ''VERSION'' \<in> set existing)"
  proof (cases "''DOCUMENT NUMBER 1'' \<in> set existing \<and> ''VERSION'' \<in> set existing")
    case True
    then obtain di vi where "map_of (header_map_of existing) ''DOCUMENT NUMBER 1'' = Some di"
      "map_of (header_map_of existing) ''VERSION'' = Some vi"
      using header_map_of_dom by metis
    then have "load_existing_versions (Some sh) = load_rows di vi (data_rows sh) {}"
      using h by (simp add: load_existing_versions_def)
    with True show ?thesis by (simp add: load_rows_no_header_mismatch)
  next
    case False
    then have "map_of (header_map_of existing) ''DOCUMENT NUMBER 1'' = None
        \<or> map_of (header_map_of existing) ''VERSION'' = None"
      using header_map_of_dom by (metis not_Some_eq)
    then have "load_existing_versions (Some sh) = Inl HeaderMismatch"
      using h by (auto simp: load_existing_versions_def Let_def split: option.splits)
    with False show ?thesis by simp
  qed
qed

theorem persistent_table_header_checks_witness:
  "map_err (\<lambda>c. normalize_header_cell (or_empty c)) (first_row ex_short_history)
      = Inr [''VERSION'', ''DOCUMENT NUMBER 1'']
   \<and> ensure_workbook (Some ex_short_history) DATABASE_HEADERS = Inl HeaderMismatch
   \<and> append_to_database (Some ex_short_history) [] = Inl HeaderMismatch
   \<and> update_document_list (Some ex_short_history) [] = Inl HeaderMismatch
   \<and> load_existing_versions (Some ex_short_history) \<noteq> Inl HeaderMismatch
   \<and> ensure_workbook (Some ex_history) DATABASE_HEADERS = Inr ex_history
   \<and> load_existing_versions (Some [[CStr ''VERSION'']]) = Inl HeaderMismatch"
proof -
  have h: "map_err (\<lambda>c. normalize_header_cell (or_empty c)) (first_row ex_short_history)
      = Inr [''VERSION'', ''DOCUMENT NUMBER 1'']" by code_simp
  have n: "[''VERSION'', ''DOCUMENT NUMBER 1''] \<noteq> map normalize_header DATABASE_HEADERS"
    "[''VERSION'', ''DOCUMENT NUMBER 1''] \<noteq> DATABASE_HEADERS"
    "[''VERSION'', ''DOCUMENT NUMBER 1''] \<noteq> EXPECTED_HEADERS"
    by code_simp+
  have g: "ensure_workbook (Some ex_history) DATABASE_HEADERS = Inr ex_history" by code_simp
  have m: "load_existing_versions (Some [[CStr ''VERSION'']]) = Inl HeaderMismatch" by code_simp
  from persistent_table_header_checks [of ex_short_history DATABASE_HEADERS "[]"] h n
  have "ensure_workbook (Some ex_short_history) DATABASE_HEADERS = Inl HeaderMismatch"
    "append_to_database (Some ex_short_history) [] = Inl HeaderMismatch"
    "update_document_list (Some ex_short_history) [] = Inl HeaderMismatch"
    "load_existing_versions (Some ex_short_history) \<noteq> Inl HeaderMismatch"
    by auto
  with h g m show ?thesis by blast
qed

subsection \<open>Appending to the History Table (C6)\<close>








subsection \<open>Acceptance is all or nothing (C1)\<close>








end
